theory Spec2Isabelle
  imports Main "HOL-Library.Word"
begin

unbundle bit_operations_syntax

section \<open>Python values\<close>

text \<open>
  The notebook works on three kinds of Python values: \<^verbatim>\<open>bytes\<close> (the content of a
  zip entry), \<^verbatim>\<open>str\<close> (zip member names, label lines) and \<^verbatim>\<open>int\<close> (label fields).
  A byte is an 8-bit word, a \<^verbatim>\<open>str\<close> is the list of its Unicode code points, an
  \<^verbatim>\<open>int\<close> is an unbounded integer. The notebook defines no exception of its own: every
  failure is one of the exceptions the Python library raises.

  The library is the one of CPython 3.11 on a 64-bit platform with its default settings
  (\<^verbatim>\<open>Py_ssize_t\<close> of 64 bits, conversion of an \<^verbatim>\<open>int\<close> to \<^verbatim>\<open>str\<close> limited to 4300
  digits), with numpy, whose arrays of Python \<^verbatim>\<open>int\<close> and whose empty arrays have items of
  8 bytes and dimensions of type \<^verbatim>\<open>npy_intp\<close>, 64 bits.
\<close>

type_synonym byte = "8 word"
type_synonym uint16 = "16 word"
type_synonym str = "nat list"

datatype exception =
    IndexError | KeyError | UnicodeDecodeError | StructError | OverflowError | ValueError

definition ascii :: "string \<Rightarrow> str" where
  \<comment> \<open>a \<^verbatim>\<open>str\<close> literal of ASCII characters\<close>
  "ascii s = map of_char s"

definition b :: "string \<Rightarrow> byte list" where
  \<comment> \<open>a \<^verbatim>\<open>bytes\<close> literal \<^verbatim>\<open>b'...'\<close>\<close>
  "b s = map of_char s"

definition getitem :: "'a list \<Rightarrow> int \<Rightarrow> exception + 'a" where
  \<comment> \<open>\<^verbatim>\<open>xs[i]\<close> on a list or tuple: a negative index counts from the end\<close>
  "getitem xs i =
     (if 0 \<le> i \<and> i < int (length xs) then Inr (xs ! nat i)
      else if i < 0 \<and> - int (length xs) \<le> i then Inr (xs ! nat (int (length xs) + i))
      else Inl IndexError)"

section \<open>Label locator\<close>

text \<open>
  \<^verbatim>\<open>data_file = [file for file in zipfiles[:-1] if PurePath(file).parts[1]=='DATA'][0]\<close>

  \<open>parts\<close> is \<^verbatim>\<open>PurePath(file).parts\<close> in the POSIX flavour (zip member names are
  separated by \<^verbatim>\<open>/\<close>): a leading root (\<^verbatim>\<open>/\<close>, or \<^verbatim>\<open>//\<close> for exactly two leading
  slashes), then the components between slashes, the empty ones and \<^verbatim>\<open>.\<close> dropped.
\<close>

fun split :: "nat \<Rightarrow> str \<Rightarrow> str list" where
  \<comment> \<open>\<^verbatim>\<open>s.split(sep)\<close> for a separator of one character\<close>
  "split sep [] = [[]]"
| "split sep (c # cs) =
     (if c = sep then [] # split sep cs
      else (case split sep cs of
              [] \<Rightarrow> [[c]]
            | x # xs \<Rightarrow> (c # x) # xs))"

definition splitroot :: "str \<Rightarrow> str \<times> str" where
  \<comment> \<open>the root of a POSIX path and the rest of it\<close>
  "splitroot part =
     (let sep = of_char CHR ''/'' in
      if part \<noteq> [] \<and> hd part = sep then
        (let stripped_part = dropWhile (\<lambda>c. c = sep) part in
         if length part - length stripped_part = 2 then ([sep, sep], stripped_part)
         else ([sep], stripped_part))
      else ([], part))"

definition parts :: "str \<Rightarrow> str list" where
  "parts file =
     (case splitroot file of
        (root, rel) \<Rightarrow>
          (if root = [] then [] else [root])
          @ filter (\<lambda>x. x \<noteq> [] \<and> x \<noteq> ascii ''.'') (split (of_char CHR ''/'') rel))"

fun comprehension :: "str list \<Rightarrow> exception + str list" where
  \<comment> \<open>the list comprehension, evaluated entry by entry; the first exception ends it\<close>
  "comprehension [] = Inr []"
| "comprehension (file # files) =
     (case getitem (parts file) 1 of
        Inl e \<Rightarrow> Inl e
      | Inr part \<Rightarrow>
          (case comprehension files of
             Inl e \<Rightarrow> Inl e
           | Inr matches \<Rightarrow>
               Inr (if part = ascii ''DATA'' then file # matches else matches)))"

definition data_file :: "str list \<Rightarrow> exception + str" where
  \<comment> \<open>\<^verbatim>\<open>zipfiles[:-1]\<close> is \<open>butlast zipfiles\<close>, the empty list for an empty listing\<close>
  "data_file zipfiles =
     (case comprehension (butlast zipfiles) of
        Inl e \<Rightarrow> Inl e
      | Inr matches \<Rightarrow> getitem matches 0)"

definition second_is_DATA :: "str \<Rightarrow> bool" where
  \<comment> \<open>the path has a component of index 1 and it is \<^verbatim>\<open>DATA\<close>\<close>
  "second_is_DATA file \<longleftrightarrow> getitem (parts file) 1 = Inr (ascii ''DATA'')"

section \<open>Label reader\<close>

text \<open>
  \<^verbatim>\<open>
  def read_label(data_file):
      label = []
      with zip.open(data_file) as f:
          line = f.readline().decode('utf8')
          while line.strip() != 'END':
              if line.strip() == '':
                  line = f.readline().decode('utf8')
                  continue
              else:
                  label.append(line.strip())
                  line = f.readline().decode('utf8')
      return '\r\n'.join(label)
  \<close>
  The open archive \<^verbatim>\<open>zip\<close> is a global of the notebook; in the model it is a parameter
  (\<open>archive\<close>), a map from member names to their decompressed content, and the
  argument \<^verbatim>\<open>data_file\<close> is \<open>member\<close>. The stream
  \<^verbatim>\<open>f\<close> is the list of the bytes not read yet.
\<close>

type_synonym zipfile = "str \<rightharpoonup> byte list"

fun readline :: "byte list \<Rightarrow> byte list \<times> byte list" where
  \<comment> \<open>\<^verbatim>\<open>f.readline()\<close>: the bytes up to and including the next \<^verbatim>\<open>\\n\<close>, or what is left
     of the stream; \<^verbatim>\<open>b''\<close> at its end. Returned with the stream after the line.\<close>
  "readline [] = ([], [])"
| "readline (c # cs) =
     (if c = 0x0A then ([c], cs)
      else (case readline cs of (line, f) \<Rightarrow> (c # line, f)))"

definition between :: "byte \<Rightarrow> byte \<Rightarrow> byte \<Rightarrow> bool" where
  "between lo hi c \<longleftrightarrow> lo \<le> c \<and> c \<le> hi"

definition utf8_char :: "byte \<Rightarrow> byte list \<Rightarrow> (nat \<times> byte list) option" where
  \<comment> \<open>the character that starts with the byte \<open>c\<close>, and the bytes after it: the
     well-formed byte sequences of the Unicode standard (no overlong form, no surrogate,
     nothing above U+10FFFF); \<open>None\<close> when the bytes are none of them\<close>
  "utf8_char c cs =
     (if c < 0x80 then Some (unat c, cs)
      else if between 0xC2 0xDF c then
        (case cs of
           c1 # cs' \<Rightarrow>
             if between 0x80 0xBF c1 then
               Some ((unat c - 0xC0) * 64 + (unat c1 - 0x80), cs')
             else None
         | _ \<Rightarrow> None)
      else if between 0xE0 0xEF c then
        (case cs of
           c1 # c2 # cs' \<Rightarrow>
             if between (if c = 0xE0 then 0xA0 else 0x80) (if c = 0xED then 0x9F else 0xBF) c1
                \<and> between 0x80 0xBF c2 then
               Some ((unat c - 0xE0) * 4096 + (unat c1 - 0x80) * 64 + (unat c2 - 0x80), cs')
             else None
         | _ \<Rightarrow> None)
      else if between 0xF0 0xF4 c then
        (case cs of
           c1 # c2 # c3 # cs' \<Rightarrow>
             if between (if c = 0xF0 then 0x90 else 0x80) (if c = 0xF4 then 0x8F else 0xBF) c1
                \<and> between 0x80 0xBF c2 \<and> between 0x80 0xBF c3 then
               Some ((unat c - 0xF0) * 262144 + (unat c1 - 0x80) * 4096
                     + (unat c2 - 0x80) * 64 + (unat c3 - 0x80), cs')
             else None
         | _ \<Rightarrow> None)
      else None)"

lemma utf8_char_rest: "utf8_char c cs = Some (cp, rest) \<Longrightarrow> length rest \<le> length cs"
  unfolding utf8_char_def
  by (simp split: if_split_asm list.split_asm)

function decode_utf8 :: "byte list \<Rightarrow> exception + str" where
  \<comment> \<open>\<^verbatim>\<open>.decode('utf8')\<close>, strict: bytes that are not well-formed UTF-8 raise\<close>
  "decode_utf8 [] = Inr []"
| "decode_utf8 (c # cs) =
     (case utf8_char c cs of
        None \<Rightarrow> Inl UnicodeDecodeError
      | Some (cp, rest) \<Rightarrow>
          (case decode_utf8 rest of
             Inl e \<Rightarrow> Inl e
           | Inr s \<Rightarrow> Inr (cp # s)))"
  by pat_completeness auto
termination
  by (relation "measure length") (auto dest: utf8_char_rest)

definition isspace :: "nat \<Rightarrow> bool" where
  \<comment> \<open>the characters \<^verbatim>\<open>str.strip()\<close> removes: Unicode white space\<close>
  "isspace c \<longleftrightarrow>
     (0x09 \<le> c \<and> c \<le> 0x0D) \<or> (0x1C \<le> c \<and> c \<le> 0x20) \<or> c = 0x85 \<or> c = 0xA0
     \<or> c = 0x1680 \<or> (0x2000 \<le> c \<and> c \<le> 0x200A) \<or> c = 0x2028 \<or> c = 0x2029
     \<or> c = 0x202F \<or> c = 0x205F \<or> c = 0x3000"

definition strip :: "str \<Rightarrow> str" where
  "strip s = rev (dropWhile isspace (rev (dropWhile isspace s)))"

fun join :: "str \<Rightarrow> str list \<Rightarrow> str" where
  \<comment> \<open>\<^verbatim>\<open>sep.join(xs)\<close>\<close>
  "join sep [] = []"
| "join sep [x] = x"
| "join sep (x # y # ys) = x @ sep @ join sep (y # ys)"

definition next_line :: "byte list \<Rightarrow> exception + str \<times> byte list" where
  \<comment> \<open>\<^verbatim>\<open>f.readline().decode('utf8')\<close>, with the stream after the line\<close>
  "next_line f =
     (case readline f of
        (raw, f') \<Rightarrow>
          (case decode_utf8 raw of
             Inl e \<Rightarrow> Inl e
           | Inr line \<Rightarrow> Inr (line, f')))"

text \<open>
  The \<^verbatim>\<open>while\<close> loop. It has no bound of its own, so it is a partial function: \<open>None\<close>
  is the run that never leaves the loop, \<open>Some (Inl e)\<close> the run that raises \<open>e\<close>,
  \<open>Some (Inr label)\<close> the run that ends with the list \<open>label\<close>.
\<close>

partial_function (option) while_loop ::
  "byte list \<Rightarrow> str \<Rightarrow> str list \<Rightarrow> (exception + str list) option" where
  "while_loop f line label =
     (if strip line \<noteq> ascii ''END'' then
        (if strip line = [] then
           (case next_line f of
              Inl e \<Rightarrow> Some (Inl e)
            | Inr (line', f') \<Rightarrow> while_loop f' line' label)
         else
           (case next_line f of
              Inl e \<Rightarrow> Some (Inl e)
            | Inr (line', f') \<Rightarrow> while_loop f' line' (label @ [strip line])))
      else Some (Inr label))"

declare while_loop.simps [code]

definition read_label :: "zipfile \<Rightarrow> str \<Rightarrow> (exception + str) option" where
  "read_label archive member =
     (case archive member of
        None \<Rightarrow> Some (Inl KeyError)
      | Some f \<Rightarrow>
          (case next_line f of
             Inl e \<Rightarrow> Some (Inl e)
           | Inr (line, f') \<Rightarrow>
               (case while_loop f' line [] of
                  None \<Rightarrow> None
                | Some (Inl e) \<Rightarrow> Some (Inl e)
                | Some (Inr label) \<Rightarrow> Some (Inr (join (ascii [CHR 0x0D, CHR 0x0A]) label)))))"

lemma readline_rest: "f \<noteq> [] \<Longrightarrow> length (snd (readline f)) < length f"
proof -
  have le: "length (snd (readline g)) \<le> length g" for g
    by (induction g) (auto split: prod.splits)
  show "length (snd (readline f)) < length f" if "f \<noteq> []"
  proof (cases f)
    case Nil
    with that show ?thesis by simp
  next
    case (Cons c cs)
    with le [of cs] show ?thesis
      by (auto split: prod.splits)
  qed
qed

function readlines :: "byte list \<Rightarrow> byte list list" where
  \<comment> \<open>the lines of a stream, as successive calls of \<open>readline\<close> return them\<close>
  "readlines f =
     (if f = [] then []
      else (case readline f of (raw, f') \<Rightarrow> raw # readlines f'))"
  by pat_completeness auto
termination
proof (relation "measure length")
  show "wf (measure (length :: byte list \<Rightarrow> nat))"
    by simp
next
  fix f raw f' :: "byte list"
  assume "f \<noteq> []" and "(raw, f') = readline f"
  with readline_rest [of f] show "(f', f) \<in> measure length"
    by (metis in_measure snd_conv)
qed

declare readlines.simps [simp del]

definition END_line :: "byte list \<Rightarrow> bool" where
  \<comment> \<open>a line of the entry whose trimmed text is the sentinel\<close>
  "END_line raw \<longleftrightarrow> map_sum id strip (decode_utf8 raw) = Inr (ascii ''END'')"

section \<open>Image unpacker\<close>

text \<open>
  \<^verbatim>\<open>
  offset = (meta['^IMAGE']-1) * meta['RECORD_BYTES']
  rows = meta['IMAGE']['LINES']
  cols = meta['IMAGE']['LINE_SAMPLES']
  samples = rows * cols
  data = struct.unpack_from('<%dH' % samples, zip.open(data_file).read(), offset)
  data = np.array(data).reshape((cols, rows))
  \<close>
\<close>

definition PY_SSIZE_T_MAX :: int where
  \<comment> \<open>the largest \<^verbatim>\<open>Py_ssize_t\<close> of a 64-bit interpreter\<close>
  "PY_SSIZE_T_MAX = 2 ^ 63 - 1"

definition MAX_STR_DIGITS :: nat where
  \<comment> \<open>\<^verbatim>\<open>sys.int_info.default_max_str_digits\<close>\<close>
  "MAX_STR_DIGITS = 4300"

definition format_H :: "int \<Rightarrow> exception + int" where
  \<comment> \<open>\<^verbatim>\<open>'<%dH' % samples\<close>. The conversion of an \<^verbatim>\<open>int\<close> of more than 4300 decimal
     digits (the sign apart) raises. The format string is given by the count it carries
     in front of \<^verbatim>\<open>H\<close>.\<close>
  "format_H samples =
     (if 10 ^ MAX_STR_DIGITS \<le> \<bar>samples\<bar> then Inl ValueError else Inr samples)"

definition le_uint16 :: "byte \<Rightarrow> byte \<Rightarrow> uint16" where
  \<comment> \<open>format \<^verbatim>\<open><H\<close>: two bytes, the low one first\<close>
  "le_uint16 b0 b1 = ucast b0 OR push_bit 8 (ucast b1)"

fun unpack_H :: "byte list \<Rightarrow> uint16 list" where
  "unpack_H (b0 # b1 # bs) = le_uint16 b0 b1 # unpack_H bs"
| "unpack_H _ = []"

definition unpack_from :: "int \<Rightarrow> byte list \<Rightarrow> int \<Rightarrow> exception + uint16 list" where
  \<comment> \<open>\<^verbatim>\<open>struct.unpack_from(format, buffer, offset)\<close> for a format that \<open>format_H\<close> has
     built, \<^verbatim>\<open><\<close> count \<^verbatim>\<open>H\<close>. The format is compiled first: a negative count has put
     a \<^verbatim>\<open>-\<close> in it, and a size beyond \<^verbatim>\<open>Py_ssize_t\<close> is refused, both with
     \<^verbatim>\<open>struct.error\<close>. Then the offset is converted to \<^verbatim>\<open>Py_ssize_t\<close>; a negative one
     counts from the end of the buffer. Then the size is checked against what the buffer
     holds from there.\<close>
  "unpack_from count buffer offset =
     (if count < 0 then Inl StructError
      else if PY_SSIZE_T_MAX div 2 < count then Inl StructError
      else if offset < - PY_SSIZE_T_MAX - 1 \<or> PY_SSIZE_T_MAX < offset then Inl OverflowError
      else
        (let size = 2 * count;
             len = int (length buffer)
         in if offset < 0 \<and> 0 < offset + size then Inl StructError
            else if offset < 0 \<and> offset + len < 0 then Inl StructError
            else
              (let start = (if offset < 0 then offset + len else offset)
               in if len - start < size then Inl StructError
                  else Inr (unpack_H (take (nat size) (drop (nat start) buffer))))))"

definition NPY_MAX_INTP :: int where
  \<comment> \<open>the largest \<^verbatim>\<open>npy_intp\<close>\<close>
  "NPY_MAX_INTP = 2 ^ 63 - 1"

definition itemsize :: int where
  \<comment> \<open>bytes of an item of \<^verbatim>\<open>np.array(data)\<close>: \<^verbatim>\<open>int64\<close>, or \<^verbatim>\<open>float64\<close> for the empty
     tuple\<close>
  "itemsize = 8"

fun c_order :: "nat \<Rightarrow> nat \<Rightarrow> 'a list \<Rightarrow> 'a list list" where
  \<comment> \<open>\<open>d0\<close> rows of \<open>d1\<close> consecutive elements each: numpy's default (C) order\<close>
  "c_order 0 d1 a = []"
| "c_order (Suc d0) d1 a = take d1 a # c_order d0 d1 (drop d1 a)"

definition new_array :: "int \<Rightarrow> int \<Rightarrow> 'a list \<Rightarrow> exception + 'a list list" where
  \<comment> \<open>the array of the given dimensions on the items \<open>a\<close>; numpy refuses it when the
     item size times the dimensions that are not 0 is no \<^verbatim>\<open>npy_intp\<close> (array is too big)\<close>
  "new_array d0 d1 a =
     (if NPY_MAX_INTP < itemsize * (if d0 = 0 then 1 else d0) * (if d1 = 0 then 1 else d1)
      then Inl ValueError
      else Inr (c_order (nat d0) (nat d1) a))"

definition reshape :: "'a list \<Rightarrow> int \<times> int \<Rightarrow> exception + 'a list list" where
  \<comment> \<open>\<^verbatim>\<open>np.array(a).reshape(shape)\<close> for a flat sequence and a shape of two dimensions;
     the array is given as its nested list. Each dimension must be an \<^verbatim>\<open>npy_intp\<close>. A
     negative dimension is the one to infer from the size, and only one may be. Every
     failure of numpy here is a \<^verbatim>\<open>ValueError\<close>.\<close>
  "reshape a shape =
     (case shape of
        (d0, d1) \<Rightarrow>
          (let size = int (length a)
           in if d0 < - NPY_MAX_INTP - 1 \<or> NPY_MAX_INTP < d0 then Inl ValueError
              else if d1 < - NPY_MAX_INTP - 1 \<or> NPY_MAX_INTP < d1 then Inl ValueError
              else if d0 < 0 \<and> d1 < 0 then Inl ValueError
              else if d0 < 0 then
                (if d1 = 0 \<or> size mod d1 \<noteq> 0 then Inl ValueError
                 else new_array (size div d1) d1 a)
              else if d1 < 0 then
                (if d0 = 0 \<or> size mod d0 \<noteq> 0 then Inl ValueError
                 else new_array d0 (size div d0) a)
              else if d0 * d1 \<noteq> size then Inl ValueError
              else new_array d0 d1 a))"

definition byte_offset :: "int \<Rightarrow> int \<Rightarrow> int" where
  \<comment> \<open>\<^verbatim>\<open>(meta['^IMAGE']-1) * meta['RECORD_BYTES']\<close>\<close>
  "byte_offset P R = (P - 1) * R"

definition unpack_image ::
  "byte list \<Rightarrow> int \<Rightarrow> int \<Rightarrow> int \<Rightarrow> int \<Rightarrow> exception + uint16 list list" where
  \<comment> \<open>the cells above as one function of the entry's bytes and of the four label
     fields: pointer \<open>P\<close>, record size \<open>R\<close>, \<open>L\<close> lines and \<open>S\<close> samples a line\<close>
  "unpack_image bytes P R L S =
     (let offset = byte_offset P R;
          rows = L;
          cols = S;
          samples = rows * cols
      in case format_H samples of
           Inl e \<Rightarrow> Inl e
         | Inr count \<Rightarrow>
             (case unpack_from count bytes offset of
                Inl e \<Rightarrow> Inl e
              | Inr data \<Rightarrow> reshape data (cols, rows)))"

subsection \<open>The cells on the notebook's variables\<close>

text \<open>
  The cells read and assign global variables of the notebook. \<open>notebook\<close> holds the ones
  these cells touch; every other variable of the session is the record's extension. A cell
  that raises leaves no result: the run ends with the exception.
\<close>

record label_meta =
  IMAGE_pointer :: int
  RECORD_BYTES :: int
  LINES :: int
  LINE_SAMPLES :: int

record notebook =
  zip_var :: zipfile
  data_file_var :: str
  meta_var :: label_meta
  offset_var :: int
  rows_var :: int
  cols_var :: int
  samples_var :: int
  data_var :: "uint16 list list"

definition cell_offset :: "'a notebook_scheme \<Rightarrow> 'a notebook_scheme" where
  "cell_offset s =
     s\<lparr>offset_var := byte_offset (IMAGE_pointer (meta_var s)) (RECORD_BYTES (meta_var s))\<rparr>"

definition cell_samples :: "'a notebook_scheme \<Rightarrow> 'a notebook_scheme" where
  "cell_samples s =
     (let s1 = s\<lparr>rows_var := LINES (meta_var s)\<rparr>;
          s2 = s1\<lparr>cols_var := LINE_SAMPLES (meta_var s1)\<rparr>
      in s2\<lparr>samples_var := rows_var s2 * cols_var s2\<rparr>)"

definition cell_data :: "'a notebook_scheme \<Rightarrow> exception + 'a notebook_scheme" where
  \<comment> \<open>the arguments of \<^verbatim>\<open>unpack_from\<close> are evaluated from left to right: the format,
     then the bytes of the entry, a \<^verbatim>\<open>KeyError\<close> when the archive has no such member\<close>
  "cell_data s =
     (case format_H (samples_var s) of
        Inl e \<Rightarrow> Inl e
      | Inr count \<Rightarrow>
          (case zip_var s (data_file_var s) of
             None \<Rightarrow> Inl KeyError
           | Some bytes \<Rightarrow>
               (case unpack_from count bytes (offset_var s) of
                  Inl e \<Rightarrow> Inl e
                | Inr data \<Rightarrow>
                    (case reshape data (cols_var s, rows_var s) of
                       Inl e \<Rightarrow> Inl e
                     | Inr array \<Rightarrow> Inr (s\<lparr>data_var := array\<rparr>)))))"

definition run_unpacker :: "'a notebook_scheme \<Rightarrow> exception + 'a notebook_scheme" where
  "run_unpacker s = cell_data (cell_samples (cell_offset s))"

subsection \<open>An encoder for the round trip\<close>

definition pack_H :: "uint16 list \<Rightarrow> byte list" where
  \<comment> \<open>Modelled from the spec: the encoder of the round-trip property, which the
     repository does not have. Each sample becomes two bytes, the low one first
     (\<^verbatim>\<open>struct.pack('<%dH' % len(xs), *xs)\<close>).\<close>
  "pack_H xs = concat (map (\<lambda>x. [ucast x, ucast (drop_bit 8 x)]) xs)"

definition has_shape :: "'a list list \<Rightarrow> int \<Rightarrow> int \<Rightarrow> bool" where
  \<comment> \<open>a nested list of \<open>d0\<close> rows of \<open>d1\<close> elements each\<close>
  "has_shape g d0 d1 \<longleftrightarrow>
     int (length g) = d0 \<and> 0 \<le> d1 \<and> list_all (\<lambda>row. int (length row) = d1) g"

section \<open>Properties of the label locator\<close>

lemma getitem_1_short: "length xs < 2 \<Longrightarrow> getitem xs 1 = Inl IndexError"
  by (auto simp: getitem_def)

lemma getitem_1_long: "2 \<le> length xs \<Longrightarrow> getitem xs 1 = Inr (xs ! 1)"
  by (auto simp: getitem_def)

lemma getitem_0: "getitem xs 0 = (case xs of [] \<Rightarrow> Inl IndexError | x # _ \<Rightarrow> Inr x)"
  by (cases xs) (auto simp: getitem_def)

lemma comprehension_short:
  "\<exists>file \<in> set files. length (parts file) < 2 \<Longrightarrow> comprehension files = Inl IndexError"
proof (induction files)
  case Nil
  then show ?case by simp
next
  case (Cons path paths)
  show ?case
  proof (cases "length (parts path) < 2")
    case True
    then show ?thesis by (simp add: getitem_1_short)
  next
    case False
    then have "getitem (parts path) 1 = Inr (parts path ! 1)"
      by (simp add: getitem_1_long)
    moreover from False Cons.prems have "\<exists>f \<in> set paths. length (parts f) < 2"
      by auto
    then have "comprehension paths = Inl IndexError"
      by (rule Cons.IH)
    ultimately show ?thesis by simp
  qed
qed

lemma comprehension_long:
  "\<forall>file \<in> set files. 2 \<le> length (parts file) \<Longrightarrow>
   comprehension files = Inr (filter second_is_DATA files)"
proof (induction files)
  case Nil
  then show ?case by simp
next
  case (Cons path paths)
  then have len: "2 \<le> length (parts path)"
    and rest: "comprehension paths = Inr (filter second_is_DATA paths)"
    by simp_all
  from len have item: "getitem (parts path) 1 = Inr (parts path ! 1)"
    by (rule getitem_1_long)
  then have "second_is_DATA path \<longleftrightarrow> parts path ! 1 = ascii ''DATA''"
    by (simp add: second_is_DATA_def)
  with item rest show ?case by simp
qed

lemma second_is_DATA_long: "second_is_DATA file \<Longrightarrow> 2 \<le> length (parts file)"
  by (auto simp: second_is_DATA_def getitem_def split: if_splits)

lemmas locator_eval =
  data_file_def second_is_DATA_def parts_def splitroot_def ascii_def getitem_def

text \<open>
  C4, as the code has it. The comprehension scans every entry but the last, and indexes
  component 1 of each. So: when exactly one path of the listing has \<^verbatim>\<open>DATA\<close> as its
  second component, that path is not the last entry, and every entry other than the last
  has at least two components, the locator returns that path, wherever among the entries
  before the last it stands.
\<close>

theorem data_file_returns_the_DATA_path:
  assumes "zipfiles = before @ [file] @ after"
    and "after \<noteq> []"
    and "second_is_DATA file"
    and "\<forall>other \<in> set (before @ after). \<not> second_is_DATA other"
    and "\<forall>other \<in> set (before @ butlast after). 2 \<le> length (parts other)"
  shows "data_file zipfiles = Inr file"
proof -
  from assms(1,2) have scanned: "butlast zipfiles = before @ file # butlast after"
    by (simp add: butlast_append)
  from assms(3) have "2 \<le> length (parts file)"
    by (rule second_is_DATA_long)
  with assms(5) scanned have "\<forall>f \<in> set (butlast zipfiles). 2 \<le> length (parts f)"
    by auto
  then have "comprehension (butlast zipfiles) = Inr (filter second_is_DATA (butlast zipfiles))"
    by (rule comprehension_long)
  moreover from assms(4) have "filter second_is_DATA before = []"
    and "filter second_is_DATA (butlast after) = []"
    by (auto simp: filter_empty_conv dest: in_set_butlastD)
  with assms(3) scanned have "filter second_is_DATA (butlast zipfiles) = [file]"
    by simp
  ultimately show ?thesis
    by (simp add: data_file_def getitem_0)
qed

text \<open>
  The theorem at a listing of three entries: a browse product, the data product and a
  bare file name in the last place, which is never scanned.
\<close>

theorem data_file_returns_the_DATA_path_witness:
  "data_file [ascii ''RO/BROWSE/N1.JPG'', ascii ''RO/DATA/N1.IMG'', ascii ''README.TXT'']
     = Inr (ascii ''RO/DATA/N1.IMG'')"
proof -
  have "second_is_DATA (ascii ''RO/DATA/N1.IMG'')"
    by (simp add: locator_eval)
  moreover have "\<forall>other \<in> set ([ascii ''RO/BROWSE/N1.JPG''] @ [ascii ''README.TXT'']).
      \<not> second_is_DATA other"
    by (simp add: locator_eval)
  moreover have "\<forall>other \<in> set ([ascii ''RO/BROWSE/N1.JPG''] @ butlast [ascii ''README.TXT'']).
      2 \<le> length (parts other)"
    by (simp add: locator_eval)
  ultimately show ?thesis
    by (intro data_file_returns_the_DATA_path
          [where before = "[ascii ''RO/BROWSE/N1.JPG'']" and after = "[ascii ''README.TXT'']"])
       simp_all
qed

text \<open>
  C4 as stated fails: the only \<^verbatim>\<open>DATA\<close> path of this listing is its last entry, which
  \<^verbatim>\<open>zipfiles[:-1]\<close> leaves out, and indexing the empty list of matches raises.
\<close>

theorem data_file_last_entry_counterexample:
  "filter second_is_DATA [ascii ''RO/BROWSE/N1.JPG'', ascii ''RO/DATA/N1.IMG'']
     = [ascii ''RO/DATA/N1.IMG'']
   \<and> data_file [ascii ''RO/BROWSE/N1.JPG'', ascii ''RO/DATA/N1.IMG''] = Inl IndexError"
  by (simp add: locator_eval)

text \<open>
  C5, as the code has it. For every listing with no path whose second component is
  \<^verbatim>\<open>DATA\<close>, the locator raises \<^verbatim>\<open>IndexError\<close>, Python's exception for an index out of
  range: the notebook has no error of its own for a label source that is not found.
\<close>

theorem data_file_without_DATA_raises_IndexError:
  assumes "\<forall>file \<in> set zipfiles. \<not> second_is_DATA file"
  shows "data_file zipfiles = Inl IndexError"
proof (cases "\<exists>file \<in> set (butlast zipfiles). length (parts file) < 2")
  case True
  then have "comprehension (butlast zipfiles) = Inl IndexError"
    by (rule comprehension_short)
  then show ?thesis by (simp add: data_file_def)
next
  case False
  then have "\<forall>file \<in> set (butlast zipfiles). 2 \<le> length (parts file)"
    by auto
  then have "comprehension (butlast zipfiles) = Inr (filter second_is_DATA (butlast zipfiles))"
    by (rule comprehension_long)
  moreover from assms have "filter second_is_DATA (butlast zipfiles) = []"
    by (auto simp: filter_empty_conv dest: in_set_butlastD)
  ultimately show ?thesis
    by (simp add: data_file_def getitem_0)
qed

theorem data_file_without_DATA_raises_IndexError_witness:
  "data_file [ascii ''RO/BROWSE/N1.JPG'', ascii ''RO/LABEL/N1.LBL'', ascii ''RO/INDEX/I.TAB'']
     = Inl IndexError"
proof -
  have "\<forall>file \<in> set [ascii ''RO/BROWSE/N1.JPG'', ascii ''RO/LABEL/N1.LBL'',
      ascii ''RO/INDEX/I.TAB'']. \<not> second_is_DATA file"
    by (simp add: locator_eval)
  then show ?thesis
    by (rule data_file_without_DATA_raises_IndexError)
qed

text \<open>
  C5 as stated fails: the exception is not one that tells a missing label source from
  another failure. The first listing has no \<^verbatim>\<open>DATA\<close> path, the second has one (its only
  entry, so the last one), and the locator raises the same \<^verbatim>\<open>IndexError\<close> on both.
\<close>

theorem data_file_not_found_counterexample:
  "filter second_is_DATA [ascii ''RO/BROWSE/N1.JPG'', ascii ''RO/LABEL/N1.LBL''] = []
   \<and> data_file [ascii ''RO/BROWSE/N1.JPG'', ascii ''RO/LABEL/N1.LBL''] = Inl IndexError
   \<and> filter second_is_DATA [ascii ''RO/DATA/N1.IMG''] = [ascii ''RO/DATA/N1.IMG'']
   \<and> data_file [ascii ''RO/DATA/N1.IMG''] = Inl IndexError"
  by (simp add: locator_eval)

text \<open>
  C10. If an entry other than the last has a path of fewer than two components, the
  locator raises \<^verbatim>\<open>IndexError\<close>, whatever else the listing holds: the comprehension
  indexes component 1 of every path it scans.
\<close>

theorem data_file_short_path_raises_IndexError:
  assumes "\<exists>file \<in> set (butlast zipfiles). length (parts file) < 2"
  shows "data_file zipfiles = Inl IndexError"
proof -
  from assms have "comprehension (butlast zipfiles) = Inl IndexError"
    by (rule comprehension_short)
  then show ?thesis
    by (simp add: data_file_def)
qed

text \<open>
  The theorem at a listing whose first entry is a bare file name and whose second entry
  is a \<^verbatim>\<open>DATA\<close> path.
\<close>

theorem data_file_short_path_raises_IndexError_witness:
  "second_is_DATA (ascii ''RO/DATA/N1.IMG'')
   \<and> data_file [ascii ''AAREADME.TXT'', ascii ''RO/DATA/N1.IMG'', ascii ''RO/BROWSE/N1.JPG'']
       = Inl IndexError"
proof -
  have "\<exists>file \<in> set (butlast [ascii ''AAREADME.TXT'', ascii ''RO/DATA/N1.IMG'',
      ascii ''RO/BROWSE/N1.JPG'']). length (parts file) < 2"
    by (simp add: locator_eval)
  then have "data_file [ascii ''AAREADME.TXT'', ascii ''RO/DATA/N1.IMG'',
      ascii ''RO/BROWSE/N1.JPG''] = Inl IndexError"
    by (rule data_file_short_path_raises_IndexError)
  moreover have "second_is_DATA (ascii ''RO/DATA/N1.IMG'')"
    by (simp add: locator_eval)
  ultimately show ?thesis by blast
qed

section \<open>Properties of the label reader\<close>

lemmas reader_eval = next_line_def b_def ascii_def strip_def isspace_def utf8_char_def

lemma readlines_Nil: "readlines [] = []"
  by (simp add: readlines.simps)

lemma readlines_Cons:
  "readlines (c # cs) = (case readline (c # cs) of (raw, f') \<Rightarrow> raw # readlines f')"
  by (subst readlines.simps) simp

lemma next_line_readlines:
  assumes "next_line f = Inr (line, f')"
  shows "f = [] \<and> line = [] \<and> f' = []
     \<or> (\<exists>raw. readlines f = raw # readlines f' \<and> decode_utf8 raw = Inr line)"
proof (cases "f = []")
  case True
  with assms show ?thesis by (simp add: next_line_def)
next
  case False
  with assms show ?thesis
    by (subst readlines.simps) (auto simp: next_line_def split: prod.splits sum.splits)
qed

lemma next_line_raises:
  assumes "next_line f = Inl e"
  shows "\<exists>raw \<in> set (readlines f). decode_utf8 raw = Inl e"
proof (cases "f = []")
  case True
  with assms show ?thesis by (simp add: next_line_def)
next
  case False
  with assms show ?thesis
    by (subst readlines.simps) (auto simp: next_line_def split: prod.splits sum.splits)
qed

text \<open>
  At the end of the stream \<open>readline\<close> returns the empty line again and again, and the
  loop skips an empty line: a run that has reached the end of the stream on a blank line
  never leaves the loop.
\<close>

lemma while_loop_never_eof:
  "while_loop f line label = Some r \<Longrightarrow> \<not> (f = [] \<and> strip line = [])"
proof (induction rule: while_loop.raw_induct [rotated, consumes 1])
  case (1 loop f line label r)
  show ?case
  proof
    assume eof: "f = [] \<and> strip line = []"
    then have "strip line \<noteq> ascii ''END''"
      by (simp add: ascii_def)
    with eof 1(2) have "loop [] [] label = Some r"
      by (simp add: next_line_def)
    from 1(1) [OF this] show False
      by (simp add: strip_def)
  qed
qed

lemma while_loop_eof: "while_loop [] [] label = None"
proof (cases "while_loop [] [] label")
  case None
  then show ?thesis .
next
  case (Some r)
  from while_loop_never_eof [OF this] show ?thesis
    by (simp add: strip_def)
qed

lemma while_loop_returns_at_END:
  "while_loop f line label = Some (Inr r) \<Longrightarrow>
   strip line = ascii ''END'' \<or> (\<exists>raw \<in> set (readlines f). END_line raw)"
proof (induction f line label "Inr r :: exception + str list"
    rule: while_loop.raw_induct [rotated, consumes 1])
  case (1 loop f line label)
  show ?case
  proof (cases "strip line = ascii ''END''")
    case True
    then show ?thesis by simp
  next
    case False
    with 1(2) obtain line' f' label' where nl: "next_line f = Inr (line', f')"
      and rec: "loop f' line' label' = Some (Inr r)"
      by (auto split: if_splits sum.splits)
    from 1(1) [OF rec]
    have IH: "strip line' = ascii ''END'' \<or> (\<exists>raw \<in> set (readlines f'). END_line raw)" .
    from next_line_readlines [OF nl] show ?thesis
    proof
      assume "f = [] \<and> line' = [] \<and> f' = []"
      with IH show ?thesis
        by (simp add: strip_def ascii_def readlines_Nil)
    next
      assume "\<exists>raw. readlines f = raw # readlines f' \<and> decode_utf8 raw = Inr line'"
      then obtain raw where "readlines f = raw # readlines f'" and "decode_utf8 raw = Inr line'"
        by blast
      with IH show ?thesis
        by (auto simp: END_line_def)
    qed
  qed
qed

lemma while_loop_raises:
  "while_loop f line label = Some (Inl e) \<Longrightarrow>
   \<exists>raw \<in> set (readlines f). decode_utf8 raw = Inl e"
proof (induction f line label "Inl e :: exception + str list"
    rule: while_loop.raw_induct [rotated, consumes 1])
  case (1 loop f line label)
  show ?case
  proof (cases "next_line f")
    case (Inl e')
    with 1(2) have "e' = e"
      by (auto split: if_splits)
    with Inl show ?thesis
      by (auto dest: next_line_raises)
  next
    case (Inr p)
    then obtain line' f' where nl: "next_line f = Inr (line', f')"
      by (cases p) simp
    with 1(2) obtain label' where "loop f' line' label' = Some (Inl e)"
      by (auto split: if_splits)
    from 1(1) [OF this] have IH: "\<exists>raw \<in> set (readlines f'). decode_utf8 raw = Inl e" .
    from next_line_readlines [OF nl] show ?thesis
    proof
      assume "f = [] \<and> line' = [] \<and> f' = []"
      with IH show ?thesis
        by (simp add: readlines_Nil)
    next
      assume "\<exists>raw. readlines f = raw # readlines f' \<and> decode_utf8 raw = Inr line'"
      with IH show ?thesis
        by auto
    qed
  qed
qed

text \<open>
  The reader never returns on an entry whose lines all decode and of which none is the
  sentinel: it neither raises nor gives a label.
\<close>

lemma read_label_without_END_hangs:
  assumes "archive member = Some f"
    and "\<forall>raw \<in> set (readlines f).
           \<exists>line. decode_utf8 raw = Inr line \<and> strip line \<noteq> ascii ''END''"
  shows "read_label archive member = None"
proof (cases "next_line f")
  case (Inl e)
  from next_line_raises [OF this] assms(2) show ?thesis
    by auto
next
  case (Inr p)
  then obtain line f' where nl: "next_line f = Inr (line, f')"
    by (cases p) simp
  note lines = next_line_readlines [OF nl]
  show ?thesis
  proof (cases "while_loop f' line []")
    case None
    with assms(1) nl show ?thesis
      by (simp add: read_label_def)
  next
    case (Some res)
    show ?thesis
    proof (cases res)
      case (Inl e)
      with Some obtain raw where raw: "raw \<in> set (readlines f')" "decode_utf8 raw = Inl e"
        by (auto dest: while_loop_raises)
      with lines have "raw \<in> set (readlines f)"
        by (auto simp: readlines_Nil)
      with assms(2) raw(2) have False
        by fastforce
      then show ?thesis ..
    next
      case (Inr label)
      with Some have "strip line = ascii ''END'' \<or> (\<exists>raw \<in> set (readlines f'). END_line raw)"
        by (auto dest: while_loop_returns_at_END)
      then show ?thesis
      proof
        assume END: "strip line = ascii ''END''"
        from lines show ?thesis
        proof
          assume "f = [] \<and> line = [] \<and> f' = []"
          with END show ?thesis
            by (simp add: strip_def ascii_def)
        next
          assume "\<exists>raw. readlines f = raw # readlines f' \<and> decode_utf8 raw = Inr line"
          then obtain raw where "readlines f = raw # readlines f'"
            and raw: "decode_utf8 raw = Inr line"
            by blast
          then have "raw \<in> set (readlines f)"
            by simp
          with assms(2) raw END show ?thesis
            by fastforce
        qed
      next
        assume "\<exists>raw \<in> set (readlines f'). END_line raw"
        then obtain raw where raw: "raw \<in> set (readlines f')" "END_line raw"
          by blast
        with lines have "raw \<in> set (readlines f)"
          by (auto simp: readlines_Nil)
        with assms(2) raw(2) show ?thesis
          by (fastforce simp: END_line_def)
      qed
    qed
  qed
qed

text \<open>
  C2. The code fails the claim. The entry \<^verbatim>\<open>b'A = 1\n'\<close> has no line whose trimmed text
  is \<^verbatim>\<open>END\<close>, and on it the reader neither reports an error nor returns: after the first
  line the stream is at its end, every further \<open>readline\<close> gives the empty line, the loop
  takes it for a blank line and goes on for ever.
\<close>

theorem read_label_hangs_at_end_of_stream:
  "filter END_line (readlines (b ''A = 1\<newline>'')) = []
   \<and> read_label [ascii ''N1.IMG'' \<mapsto> b ''A = 1\<newline>''] (ascii ''N1.IMG'') = None"
proof -
  have "filter END_line (readlines (b ''A = 1\<newline>'')) = []"
    by (simp add: readlines_Nil readlines_Cons END_line_def reader_eval)
  moreover have "while_loop [] (ascii ''A = 1\<newline>'') [] = None"
    by (subst while_loop.simps) (simp add: reader_eval while_loop_eof)
  then have "read_label [ascii ''N1.IMG'' \<mapsto> b ''A = 1\<newline>''] (ascii ''N1.IMG'') = None"
    by (simp add: read_label_def reader_eval)
  ultimately show ?thesis by blast
qed

text \<open>
  C8. On the lines \<^verbatim>\<open>A = 1\<close>, \<^verbatim>\<open>B = 2\<close>, a blank line and \<^verbatim>\<open>END\<close>, the reader returns
  the two trimmed lines \<^verbatim>\<open>A = 1\<close> and \<^verbatim>\<open>B = 2\<close> joined with CRLF. The blank line is
  dropped, and the bytes after the \<^verbatim>\<open>END\<close> line (\<open>rest\<close>, any bytes at all) are never
  read.
\<close>

theorem read_label_stops_at_END:
  "read_label [member \<mapsto> b ''A = 1\<newline>B = 2\<newline>\<newline>END\<newline>'' @ rest] member
     = Some (Inr (join (ascii [CHR 0x0D, CHR 0x0A]) [ascii ''A = 1'', ascii ''B = 2'']))"
  apply (simp add: read_label_def reader_eval)
  apply (subst while_loop.simps, simp add: reader_eval)
  apply (subst while_loop.simps, simp add: reader_eval)
  apply (subst while_loop.simps, simp add: reader_eval)
  apply (subst while_loop.simps, simp add: reader_eval)
  done

section \<open>Properties of the image unpacker\<close>

lemma str_digits_ssize: "PY_SSIZE_T_MAX < 10 ^ MAX_STR_DIGITS"
proof -
  have "(2::int) ^ 63 \<le> 10 ^ 63"
    by (rule power_mono) simp_all
  also have "(10::int) ^ 63 \<le> 10 ^ MAX_STR_DIGITS"
    by (rule power_increasing) (simp_all add: MAX_STR_DIGITS_def)
  finally show ?thesis
    by (simp add: PY_SSIZE_T_MAX_def)
qed

lemma format_H_ssize: "\<bar>samples\<bar> \<le> PY_SSIZE_T_MAX \<Longrightarrow> format_H samples = Inr samples"
  using str_digits_ssize by (simp add: format_H_def)

lemma format_H_cases:
  obtains "format_H samples = Inl ValueError" | "format_H samples = Inr samples"
  using that by (cases "10 ^ MAX_STR_DIGITS \<le> \<bar>samples\<bar>") (simp_all add: format_H_def)

lemmas unpack_eval =
  unpack_image_def byte_offset_def format_H_ssize unpack_from_def reshape_def new_array_def
  PY_SSIZE_T_MAX_def NPY_MAX_INTP_def itemsize_def le_uint16_def

lemma c_order_numeral:
  "c_order (numeral k) d1 a = take d1 a # c_order (pred_numeral k) d1 (drop d1 a)"
  by (simp add: numeral_eq_Suc)

text \<open>
  C1, as the code has it. On the eight bytes of the little-endian samples 10, 20, 30, 40
  at offset 0 (whatever bytes follow them), with \<open>P = 1\<close>, \<open>R = 0\<close>, \<open>L = 2\<close> and
  \<open>S = 2\<close>, the unpacker returns \<open>[[10, 20], [30, 40]]\<close>: \<^verbatim>\<open>reshape((cols, rows))\<close>
  fills the grid of \<open>S\<close> rows of \<open>L\<close> samples row by row, in the order of the file.
\<close>

theorem unpack_image_2x2:
  "unpack_image ([0x0A, 0, 0x14, 0, 0x1E, 0, 0x28, 0] @ rest) 1 0 2 2
     = Inr [[10, 20], [30, 40]]"
  by (simp add: unpack_eval c_order_numeral)

text \<open>C1 as stated fails: the grid is not the column-major \<open>[[10, 30], [20, 40]]\<close>.\<close>

theorem unpack_image_2x2_counterexample:
  "unpack_image [0x0A, 0, 0x14, 0, 0x1E, 0, 0x28, 0] 1 0 2 2 \<noteq> Inr [[10, 30], [20, 40]]"
  by (simp add: unpack_eval c_order_numeral)

lemma unpack_from_truncated:
  "int (length buffer) < offset + 2 * count \<Longrightarrow>
   unpack_from count buffer offset = Inl StructError
   \<or> unpack_from count buffer offset = Inl OverflowError"
  by (auto simp: unpack_from_def Let_def)

text \<open>
  C3, as the code has it. When \<open>(P - 1) * R + 2 * L * S\<close> exceeds the length of the
  buffer the unpacker returns no grid, whole or partial, and reads nothing out of bounds.
  It raises one of the library's exceptions: \<^verbatim>\<open>struct.error\<close> from
  \<^verbatim>\<open>struct.unpack_from\<close>, or \<^verbatim>\<open>OverflowError\<close> for an offset that is no \<^verbatim>\<open>Py_ssize_t\<close>,
  or \<^verbatim>\<open>ValueError\<close> for a sample count of more than 4300 digits, which the format string
  cannot take. The code has no error of its own for truncated image data.
\<close>

theorem unpack_image_truncated:
  assumes "int (length bytes) < (P - 1) * R + 2 * (L * S)"
  shows "unpack_image bytes P R L S = Inl StructError
     \<or> unpack_image bytes P R L S = Inl OverflowError
     \<or> unpack_image bytes P R L S = Inl ValueError"
proof (cases "L * S" rule: format_H_cases)
  case 1
  then show ?thesis
    by (simp add: unpack_image_def)
next
  case 2
  with assms unpack_from_truncated [of bytes "(P - 1) * R" "L * S"] show ?thesis
    by (auto simp: unpack_image_def byte_offset_def)
qed

text \<open>The theorem at a buffer of six bytes asked for a grid of 2 by 2 samples.\<close>

theorem unpack_image_truncated_witness:
  "unpack_image [0x0A, 0, 0x14, 0, 0x1E, 0] 1 0 2 2 = Inl StructError"
proof -
  have "int (length [0x0A, 0, 0x14, 0, 0x1E, 0 :: byte]) < (1 - 1) * 0 + 2 * (2 * 2)"
    by simp
  then have "unpack_image [0x0A, 0, 0x14, 0, 0x1E, 0] 1 0 2 2 = Inl StructError
      \<or> unpack_image [0x0A, 0, 0x14, 0, 0x1E, 0] 1 0 2 2 = Inl OverflowError
      \<or> unpack_image [0x0A, 0, 0x14, 0, 0x1E, 0] 1 0 2 2 = Inl ValueError"
    by (rule unpack_image_truncated)
  moreover have "unpack_image [0x0A, 0, 0x14, 0, 0x1E, 0] 1 0 2 2 \<noteq> Inl OverflowError"
    and "unpack_image [0x0A, 0, 0x14, 0, 0x1E, 0] 1 0 2 2 \<noteq> Inl ValueError"
    by (simp_all add: unpack_eval)
  ultimately show ?thesis by blast
qed

text \<open>
  C3 as stated fails: the exception does not tell truncated data from another failure.
  The first buffer is too short for one sample. The other two hold every byte the formula
  asks for, and the unpacker raises the same \<^verbatim>\<open>struct.error\<close>: once for the \<^verbatim>\<open>-\<close> that
  a negative sample count puts in the format, once for a negative offset that reaches
  back beyond the start of the buffer.
\<close>

theorem unpack_image_truncated_counterexample:
  "int (length ([] :: byte list)) < (1 - 1) * 0 + 2 * (1 * 1)
   \<and> unpack_image [] 1 0 1 1 = Inl StructError
   \<and> \<not> int (length [0, 0 :: byte]) < (1 - 1) * 0 + 2 * ((- 1) * 1)
   \<and> unpack_image [0, 0] 1 0 (- 1) 1 = Inl StructError
   \<and> \<not> int (length [0, 0 :: byte]) < (0 - 1) * 4 + 2 * (1 * 1)
   \<and> unpack_image [0, 0] 0 4 1 1 = Inl StructError"
  by (simp add: unpack_eval)

text \<open>
  A sample count of more than 4300 digits on a truncated buffer: the exception is the
  \<^verbatim>\<open>ValueError\<close> of the format string.
\<close>

lemma unpack_image_truncated_ValueError:
  "unpack_image [] 1 0 (10 ^ 2200) (10 ^ 2200) = Inl ValueError"
proof -
  have "(10::int) ^ MAX_STR_DIGITS \<le> 10 ^ (2200 + 2200)"
    by (rule power_increasing) (simp_all add: MAX_STR_DIGITS_def)
  also have "(10::int) ^ (2200 + 2200) = 10 ^ 2200 * 10 ^ 2200"
    by (rule power_add)
  also have "(10::int) ^ 2200 * 10 ^ 2200 = \<bar>10 ^ 2200 * 10 ^ 2200\<bar>"
    by (simp only: abs_mult power_abs abs_numeral)
  finally have "format_H (10 ^ 2200 * 10 ^ 2200) = Inl ValueError"
    by (simp only: format_H_def if_True)
  then show ?thesis
    by (simp only: unpack_image_def Let_def sum.case)
qed

lemma le_uint16_pack: "le_uint16 (ucast x) (ucast (drop_bit 8 x)) = x"
  unfolding le_uint16_def
  by (rule bit_word_eqI) (auto simp: bit_simps)

lemma unpack_H_pack_H: "unpack_H (pack_H xs) = xs"
  by (induction xs) (simp_all add: pack_H_def le_uint16_pack)

lemma length_pack_H: "length (pack_H xs) = 2 * length xs"
  by (induction xs) (simp_all add: pack_H_def)

lemma c_order_concat:
  "list_all (\<lambda>row. length row = d1) g \<Longrightarrow> c_order (length g) d1 (concat g) = g"
  by (induction g) simp_all

lemma length_concat_rows:
  "list_all (\<lambda>row. length row = d1) g \<Longrightarrow> length (concat g) = length g * d1"
  by (induction g) simp_all

lemma unpack_from_packed:
  assumes "int (length before) = offset"
    and "int (length (before @ pack_H xs @ after)) \<le> PY_SSIZE_T_MAX"
  shows "unpack_from (int (length xs)) (before @ pack_H xs @ after) offset = Inr xs"
proof -
  let ?buffer = "before @ pack_H xs @ after"
  have size: "int (length (pack_H xs)) = 2 * int (length xs)"
    by (simp add: length_pack_H)
  with assms(2) have count: "\<not> PY_SSIZE_T_MAX div 2 < int (length xs)"
    by simp
  from assms have range: "\<not> (offset < - PY_SSIZE_T_MAX - 1 \<or> PY_SSIZE_T_MAX < offset)"
    by auto
  from assms(1) have nonneg: "\<not> offset < 0"
    by auto
  from assms(1) size have fits: "\<not> int (length ?buffer) - offset < 2 * int (length xs)"
    by simp
  from assms(1) have "take (nat (2 * int (length xs))) (drop (nat offset) ?buffer) = pack_H xs"
    by (auto simp: length_pack_H nat_mult_distrib)
  with count range nonneg fits show ?thesis
    by (simp add: unpack_from_def Let_def unpack_H_pack_H)
qed

lemma has_shape_rows:
  assumes "has_shape g d0 d1"
  shows "d0 = int (length g)" and "0 \<le> d1" and "list_all (\<lambda>row. length row = nat d1) g"
  using assms by (auto simp: has_shape_def list_all_iff)

lemma has_shape_size:
  assumes "has_shape g d0 d1"
  shows "int (length (concat g)) = d0 * d1"
  using has_shape_rows [OF assms] by (simp add: length_concat_rows)

lemma new_array_fits:
  assumes "0 \<le> d0" and "0 \<le> d1" and "itemsize * max 1 d0 * max 1 d1 \<le> NPY_MAX_INTP"
  shows "new_array d0 d1 a = Inr (c_order (nat d0) (nat d1) a)"
    and "d0 \<le> NPY_MAX_INTP" and "d1 \<le> NPY_MAX_INTP"
proof -
  let ?x = "max 1 d0" and ?y = "max 1 d1"
  from assms(1,2) have eq: "(if d0 = 0 then 1 else d0) = ?x" "(if d1 = 0 then 1 else d1) = ?y"
    by auto
  with assms(3) show "new_array d0 d1 a = Inr (c_order (nat d0) (nat d1) a)"
    by (simp add: new_array_def)
  have "?x * 1 \<le> ?x * ?y" and "1 * ?y \<le> ?x * ?y"
    by (rule mult_left_mono, simp, simp) (rule mult_right_mono, simp, simp)
  moreover have "0 \<le> ?x * ?y"
    by simp
  then have "?x * ?y \<le> itemsize * ?x * ?y"
    by (simp add: itemsize_def)
  ultimately have "?x \<le> NPY_MAX_INTP" and "?y \<le> NPY_MAX_INTP"
    using assms(3) by simp_all
  then show "d0 \<le> NPY_MAX_INTP" and "d1 \<le> NPY_MAX_INTP"
    by simp_all
qed

lemma reshape_concat:
  assumes "has_shape g d0 d1"
    and "itemsize * max 1 d0 * max 1 d1 \<le> NPY_MAX_INTP"
  shows "reshape (concat g) (d0, d1) = Inr g"
proof -
  note shape = has_shape_rows [OF assms(1)]
  from shape(1) have d0: "0 \<le> d0"
    by simp
  note fits = new_array_fits [OF d0 shape(2) assms(2)]
  from shape(1,3) have "c_order (nat d0) (nat d1) (concat g) = g"
    by (simp add: c_order_concat)
  with has_shape_size [OF assms(1)] d0 shape(2) fits(1) [of "concat g"] fits(2,3) show ?thesis
    by (simp add: reshape_def NPY_MAX_INTP_def)
qed

lemma length_unpack_H: "length (unpack_H bs) = length bs div 2"
  by (induction bs rule: unpack_H.induct) simp_all

lemma c_order_exact:
  "length a = d0 * d1 \<Longrightarrow>
   length (c_order d0 d1 a) = d0
   \<and> list_all (\<lambda>row. length row = d1) (c_order d0 d1 a)
   \<and> concat (c_order d0 d1 a) = a"
  by (induction d0 arbitrary: a) simp_all

lemma unpack_from_Inr:
  assumes "unpack_from count buffer offset = Inr data"
  shows "0 \<le> count" and "int (length data) = count"
    and "0 \<le> offset \<Longrightarrow>
         data = unpack_H (take (nat (2 * count)) (drop (nat offset) buffer))"
proof -
  from assms show c: "0 \<le> count"
    by (auto simp: unpack_from_def Let_def split: if_splits)
  let ?start = "if offset < 0 then offset + int (length buffer) else offset"
  from assms have fits: "\<not> int (length buffer) - ?start < 2 * count"
    and start: "\<not> (offset < 0 \<and> offset + int (length buffer) < 0)"
    and data: "data = unpack_H (take (nat (2 * count)) (drop (nat ?start) buffer))"
    by (auto simp: unpack_from_def Let_def split: if_splits)
  from fits start c
  have "length (take (nat (2 * count)) (drop (nat ?start) buffer)) = nat (2 * count)"
    by (auto simp: min_def)
  with data c show "int (length data) = count"
    by (simp add: length_unpack_H)
  from data show "data = unpack_H (take (nat (2 * count)) (drop (nat offset) buffer))"
    if "0 \<le> offset" using that by simp
qed

lemma new_array_Inr:
  "new_array d0 d1 a = Inr g \<Longrightarrow> g = c_order (nat d0) (nat d1) a"
  by (simp add: new_array_def split: if_splits)

lemma reshape_Inr:
  assumes "reshape a (d0, d1) = Inr g" and "int (length a) = d1 * d0"
  shows "0 \<le> d0" and "0 \<le> d1" and "g = c_order (nat d0) (nat d1) a"
proof -
  have neg: "\<not> (d0 < 0 \<and> 0 < d1)" "\<not> (d1 < 0 \<and> 0 < d0)"
    using assms(2) mult_pos_neg [of d1 d0] mult_neg_pos [of d1 d0]
    by (auto simp: not_less [symmetric] simp del: not_less)
  with assms(1) show "0 \<le> d0" and "0 \<le> d1"
    by (auto simp: reshape_def Let_def split: if_splits)
  with assms(1) show "g = c_order (nat d0) (nat d1) a"
    by (auto simp: reshape_def Let_def split: if_splits dest: new_array_Inr)
qed

text \<open>
  What a run that ends well returns: a grid of \<open>S\<close> rows of \<open>L\<close> samples whose rows,
  one after the other, are the \<open>L * S\<close> samples that start at the byte offset.
\<close>

lemma unpack_image_Inr:
  assumes "unpack_image bytes P R L S = Inr g"
  shows "has_shape g S L"
    and "0 \<le> (P - 1) * R \<Longrightarrow>
         concat g = unpack_H (take (nat (2 * (L * S))) (drop (nat ((P - 1) * R)) bytes))"
proof -
  from assms obtain data where
    unpack: "unpack_from (L * S) bytes ((P - 1) * R) = Inr data"
    and shape: "reshape data (S, L) = Inr g"
    by (cases "L * S" rule: format_H_cases)
       (auto simp: unpack_image_def byte_offset_def Let_def split: sum.splits)
  note u = unpack_from_Inr [OF unpack]
  note r = reshape_Inr [OF shape u(2)]
  from u(2) r(1,2) have size: "length data = nat S * nat L"
    by (metis mult.commute nat_int nat_mult_distrib)
  from c_order_exact [OF size] r show "has_shape g S L"
    by (simp add: has_shape_def list_all_iff)
  from c_order_exact [OF size] r(3) u(3)
  show "concat g = unpack_H (take (nat (2 * (L * S))) (drop (nat ((P - 1) * R)) bytes))"
    if "0 \<le> (P - 1) * R" using that by simp
qed

text \<open>
  The round trip that the code does make: a grid in the layout of its own result, \<open>S\<close>
  rows of \<open>L\<close> samples, written row by row at the byte offset of a buffer, comes back
  (the buffer and the array within the sizes of the platform).
\<close>

lemma unpack_image_roundtrip_S_rows_of_L:
  assumes "int (length before) = (P - 1) * R"
    and "has_shape g S L"
    and "int (length (before @ pack_H (concat g) @ after)) \<le> PY_SSIZE_T_MAX"
    and "itemsize * max 1 S * max 1 L \<le> NPY_MAX_INTP"
  shows "unpack_image (before @ pack_H (concat g) @ after) P R L S = Inr g"
proof -
  from has_shape_size [OF assms(2)] have size: "int (length (concat g)) = L * S"
    by (simp add: mult.commute)
  with assms(3) have "\<bar>L * S\<bar> \<le> PY_SSIZE_T_MAX"
    by (simp add: length_pack_H)
  then have "format_H (L * S) = Inr (L * S)"
    by (rule format_H_ssize)
  moreover from size unpack_from_packed [OF assms(1) assms(3)]
  have "unpack_from (L * S) (before @ pack_H (concat g) @ after) ((P - 1) * R) = Inr (concat g)"
    by simp
  ultimately show ?thesis
    using reshape_concat [OF assms(2) assms(4)]
    by (simp add: unpack_image_def byte_offset_def)
qed

text \<open>
  A grid of \<open>L\<close> rows of \<open>S\<close> samples, the image that the label describes, never comes
  back when \<open>L\<close> and \<open>S\<close> differ, whatever the buffer holds: the result has \<open>S\<close> rows.
\<close>

lemma unpack_image_not_L_rows_of_S:
  assumes "has_shape g L S" and "L \<noteq> S"
  shows "unpack_image bytes P R L S \<noteq> Inr g"
proof
  assume "unpack_image bytes P R L S = Inr g"
  then have "has_shape g S L"
    by (rule unpack_image_Inr)
  with assms show False
    by (simp add: has_shape_def)
qed

text \<open>
  C6. The code fails the claim. The image of 2 lines of 3 samples
  \<open>[[1, 2, 3], [4, 5, 6]]\<close>, its samples written line by line as two-byte little-endian
  integers at offset 0 (\<open>P = 1\<close>, \<open>R = 0\<close>), is unpacked with \<open>L = 2\<close> and \<open>S = 3\<close> to
  \<open>[[1, 2], [3, 4], [5, 6]]\<close>, 3 rows of 2, and not to the grid that was written:
  \<^verbatim>\<open>reshape((cols, rows))\<close> takes the number of samples in a line for the number of rows.
\<close>

theorem unpack_image_2_lines_of_3_samples:
  "has_shape [[1, 2, 3], [4, 5, 6 :: uint16]] 2 3
   \<and> unpack_image (pack_H (concat [[1, 2, 3], [4, 5, 6]])) 1 0 2 3
       = Inr [[1, 2], [3, 4], [5, 6]]"
  by (simp add: has_shape_def pack_H_def unpack_eval c_order_numeral)

text \<open>
  C7. The offset the unpacker computes is \<open>(P - 1) * R\<close>, whatever the label gives for
  the lines \<open>L\<close> and the samples per line \<open>S\<close>; for \<open>P = 3\<close> and \<open>R = 100\<close> it is 200.
\<close>

theorem offset_independent_of_dimensions:
  "offset_var (cell_offset (s\<lparr>meta_var := (meta_var s)\<lparr>LINES := L, LINE_SAMPLES := S\<rparr>\<rparr>))
     = (IMAGE_pointer (meta_var s) - 1) * RECORD_BYTES (meta_var s)
   \<and> offset_var (cell_offset (s\<lparr>meta_var :=
        \<lparr>IMAGE_pointer = 3, RECORD_BYTES = 100, LINES = L, LINE_SAMPLES = S\<rparr>\<rparr>)) = 200"
  by (simp add: cell_offset_def byte_offset_def)

lemma run_unpacker_eq:
  "run_unpacker s =
     (case format_H (LINES (meta_var s) * LINE_SAMPLES (meta_var s)) of
        Inl e \<Rightarrow> Inl e
      | Inr count \<Rightarrow>
          (case zip_var s (data_file_var s) of
             None \<Rightarrow> Inl KeyError
           | Some bytes \<Rightarrow>
               (case unpack_image bytes (IMAGE_pointer (meta_var s)) (RECORD_BYTES (meta_var s))
                       (LINES (meta_var s)) (LINE_SAMPLES (meta_var s)) of
                  Inl e \<Rightarrow> Inl e
                | Inr g \<Rightarrow>
                    Inr (s\<lparr>offset_var :=
                              (IMAGE_pointer (meta_var s) - 1) * RECORD_BYTES (meta_var s),
                            rows_var := LINES (meta_var s),
                            cols_var := LINE_SAMPLES (meta_var s),
                            samples_var := LINES (meta_var s) * LINE_SAMPLES (meta_var s),
                            data_var := g\<rparr>))))"
  by (cases "LINES (meta_var s) * LINE_SAMPLES (meta_var s)" rule: format_H_cases)
     (simp_all add: run_unpacker_def cell_data_def cell_samples_def cell_offset_def
        unpack_image_def byte_offset_def Let_def split: option.splits sum.splits)

lemma run_unpacker_Some:
  assumes "zip_var s (data_file_var s) = Some bytes"
  shows "run_unpacker s =
     (case unpack_image bytes (IMAGE_pointer (meta_var s)) (RECORD_BYTES (meta_var s))
             (LINES (meta_var s)) (LINE_SAMPLES (meta_var s)) of
        Inl e \<Rightarrow> Inl e
      | Inr g \<Rightarrow>
          Inr (s\<lparr>offset_var := (IMAGE_pointer (meta_var s) - 1) * RECORD_BYTES (meta_var s),
                  rows_var := LINES (meta_var s),
                  cols_var := LINE_SAMPLES (meta_var s),
                  samples_var := LINES (meta_var s) * LINE_SAMPLES (meta_var s),
                  data_var := g\<rparr>))"
  using assms
  by (cases "LINES (meta_var s) * LINE_SAMPLES (meta_var s)" rule: format_H_cases)
     (simp_all add: run_unpacker_eq unpack_image_def)

text \<open>
  C9. Run the cells of the unpacker in two notebooks whose archives give the same bytes
  for their data file and whose labels are equal; every other variable may differ. Both
  runs end alike, with the same grid or the same exception: the outcome is
  \<open>unpack_image\<close> of the bytes and the four label fields, and of nothing else. A run
  that ends well has changed \<^verbatim>\<open>offset\<close>, \<^verbatim>\<open>rows\<close>, \<^verbatim>\<open>cols\<close>, \<^verbatim>\<open>samples\<close> and \<^verbatim>\<open>data\<close>,
  the variables the cells assign, and nothing else.
\<close>

theorem run_unpacker_pure:
  assumes "zip_var s (data_file_var s) = Some bytes"
    and "zip_var s' (data_file_var s') = Some bytes"
    and "meta_var s = meta_var s'"
  shows "map_sum id data_var (run_unpacker s) = map_sum id data_var (run_unpacker s')
    \<and> map_sum id data_var (run_unpacker s)
        = unpack_image bytes (IMAGE_pointer (meta_var s)) (RECORD_BYTES (meta_var s))
            (LINES (meta_var s)) (LINE_SAMPLES (meta_var s))
    \<and> (\<forall>t. run_unpacker s = Inr t \<longrightarrow>
          t\<lparr>offset_var := offset_var s, rows_var := rows_var s, cols_var := cols_var s,
            samples_var := samples_var s, data_var := data_var s\<rparr> = s)"
  using assms
  by (auto simp: run_unpacker_Some split: sum.splits)

text \<open>
  The theorem at two notebooks that differ in the name of the data file, in what else
  the archive holds and in the values the assigned variables had before the run.
\<close>

theorem run_unpacker_pure_witness:
  "map_sum id data_var (run_unpacker
      \<lparr>zip_var = [ascii ''N1.IMG'' \<mapsto> [0x0A, 0, 0x14, 0, 0x1E, 0, 0x28, 0]],
       data_file_var = ascii ''N1.IMG'',
       meta_var = \<lparr>IMAGE_pointer = 1, RECORD_BYTES = 0, LINES = 2, LINE_SAMPLES = 2\<rparr>,
       offset_var = 0, rows_var = 0, cols_var = 0, samples_var = 0, data_var = []\<rparr>)
   = map_sum id data_var (run_unpacker
      \<lparr>zip_var = [ascii ''N2.IMG'' \<mapsto> [0x0A, 0, 0x14, 0, 0x1E, 0, 0x28, 0],
                   ascii ''N2.JPG'' \<mapsto> [0xFF]],
       data_file_var = ascii ''N2.IMG'',
       meta_var = \<lparr>IMAGE_pointer = 1, RECORD_BYTES = 0, LINES = 2, LINE_SAMPLES = 2\<rparr>,
       offset_var = 4096, rows_var = 7, cols_var = 9, samples_var = 63, data_var = [[1]]\<rparr>)"
  by (rule run_unpacker_pure [where bytes = "[0x0A, 0, 0x14, 0, 0x1E, 0, 0x28, 0]", THEN conjunct1])
     (simp_all add: ascii_def)

end
